theory Spec2Isabelle
  imports Complex_Main "HOL-Library.Stream" "HOL-Library.Log_Nat"
begin

section \<open>Python values used by the generator\<close>

text \<open>
  Python integers are unbounded and are modelled by \<open>int\<close>. The exceptions that the
  modelled code can raise are values of \<open>py_error\<close>; a computation that may raise returns
  \<open>py_error + 'a\<close>, with \<open>Inl\<close> for the exception.
\<close>

datatype py_error = ZeroDivisionError | OverflowError | ValueError | DatabaseError

subsection \<open>\<open>str\<close> of an integer and the format \<open>04d\<close>\<close>

definition digit_char :: "nat \<Rightarrow> char" where
  "digit_char d = ''0123456789'' ! d"

definition isdigit :: "char \<Rightarrow> bool" where
  "isdigit c = (c \<in> set ''0123456789'')"

fun digits :: "nat \<Rightarrow> string" where
  "digits n = (if n < 10 then [digit_char n] else digits (n div 10) @ [digit_char (n mod 10)])"

declare digits.simps [simp del]

text \<open>\<open>str(i)\<close> for a Python integer: decimal digits, with a minus sign when negative.\<close>

definition str_int :: "int \<Rightarrow> string" where
  "str_int i = (if i < 0 then CHR ''-'' # digits (nat (- i)) else digits (nat i))"

text \<open>
  The format specification \<open>04d\<close>: zero padding to width 4, the sign counted in the width
  and written before the zeros.
\<close>

definition zfill :: "nat \<Rightarrow> string \<Rightarrow> string" where
  "zfill w s = replicate (w - length s) CHR ''0'' @ s"

definition format_04d :: "int \<Rightarrow> string" where
  "format_04d i = (if i < 0 then CHR ''-'' # zfill 3 (digits (nat (- i))) else zfill 4 (digits (nat i)))"

text \<open>The number a string of decimal digits denotes (\<open>int(s)\<close> on such a string).\<close>

definition digit_val :: "char \<Rightarrow> nat" where
  "digit_val c = of_char c - 48"

definition int_of_digits :: "string \<Rightarrow> int" where
  "int_of_digits s = int (foldl (\<lambda>acc c. 10 * acc + digit_val c) 0 s)"

subsection \<open>Floats\<close>

text \<open>
  A Python float is an IEEE 754 binary64 number: a finite one, which is a rational number
  \<open>m * 2 ^ e\<close> with \<open>\<bar>m\<bar> < 2 ^ 53\<close> and \<open>- 1074 \<le> e\<close>, an infinity or a NaN. An operation on
  finite numbers computes the exact result and rounds it to the nearest double, a tie going
  to the even \<open>m\<close>. The sign of a zero is not kept.
\<close>

datatype pyfloat = Finite rat | PosInf | NegInf | NaN

text \<open>The integer nearest to \<open>x\<close>, the even one of the two when \<open>x\<close> is halfway.\<close>

definition round_half_even :: "rat \<Rightarrow> int" where
  "round_half_even x =
    (let f = \<lfloor>x\<rfloor>; r = x - of_int f
     in if r < 1 / 2 then f else if 1 / 2 < r then f + 1 else if even f then f else f + 1)"

text \<open>For \<open>0 < x\<close>, the exponent \<open>k\<close> with \<open>2 ^ k \<le> x < 2 ^ (k + 1)\<close>.\<close>

definition ilog2 :: "rat \<Rightarrow> int" where
  "ilog2 x =
    (case quotient_of x of
       (a, b) \<Rightarrow> let k = bitlen a - bitlen b in if 2 powi k \<le> x then k else k - 1)"

text \<open>
  The exponent of the last of the 53 bits of the double nearest to \<open>x\<close>; it is no less than
  \<open>- 1074\<close>, the exponent of the subnormal numbers.
\<close>

definition ulp_exponent :: "rat \<Rightarrow> int" where
  "ulp_exponent x = max (ilog2 \<bar>x\<bar> - 52) (- 1074)"

text \<open>
  Rounding to the nearest double, with no bound on the exponent from above: a result of
  magnitude \<open>2 ^ 1024\<close> or more is an overflow, which the operations below turn into an
  infinity or an exception as Python does.
\<close>

definition nearest_double :: "rat \<Rightarrow> rat" where
  "nearest_double x =
    (if x = 0 then 0
     else of_int (round_half_even (x / 2 powi ulp_exponent x)) * 2 powi ulp_exponent x)"

text \<open>The float that an exact result rounds to; an overflow gives an infinity.\<close>

definition to_float :: "rat \<Rightarrow> pyfloat" where
  "to_float x =
    (let d = nearest_double x
     in if 2 ^ 1024 \<le> d then PosInf else if d \<le> - (2 ^ 1024) then NegInf else Finite d)"

text \<open>The arithmetic of floats: \<open>- x\<close>, \<open>x + y\<close>, \<open>x - y\<close> and \<open>x * y\<close>, which never raise.\<close>

fun float_neg :: "pyfloat \<Rightarrow> pyfloat" where
  "float_neg (Finite x) = Finite (- x)"
| "float_neg PosInf = NegInf"
| "float_neg NegInf = PosInf"
| "float_neg NaN = NaN"

fun float_add :: "pyfloat \<Rightarrow> pyfloat \<Rightarrow> pyfloat" where
  "float_add (Finite x) (Finite y) = to_float (x + y)"
| "float_add NaN y = NaN"
| "float_add x NaN = NaN"
| "float_add PosInf NegInf = NaN"
| "float_add NegInf PosInf = NaN"
| "float_add PosInf y = PosInf"
| "float_add x PosInf = PosInf"
| "float_add NegInf y = NegInf"
| "float_add x NegInf = NegInf"

definition float_sub :: "pyfloat \<Rightarrow> pyfloat \<Rightarrow> pyfloat" where
  "float_sub x y = float_add x (float_neg y)"

fun float_mul :: "pyfloat \<Rightarrow> pyfloat \<Rightarrow> pyfloat" where
  "float_mul (Finite x) (Finite y) = to_float (x * y)"
| "float_mul NaN y = NaN"
| "float_mul x NaN = NaN"
| "float_mul (Finite x) y =
     (if x = 0 then NaN else if (0 < x) = (y = PosInf) then PosInf else NegInf)"
| "float_mul x (Finite y) =
     (if y = 0 then NaN else if (0 < y) = (x = PosInf) then PosInf else NegInf)"
| "float_mul x y = (if x = y then PosInf else NegInf)"

text \<open>
  \<open>x / y\<close> for two floats raises \<open>ZeroDivisionError\<close> when \<open>y\<close> is zero, whatever \<open>x\<close> is;
  an overflow gives an infinity.
\<close>

fun float_truediv :: "pyfloat \<Rightarrow> pyfloat \<Rightarrow> py_error + pyfloat" where
  "float_truediv x (Finite y) =
     (if y = 0 then Inl ZeroDivisionError
      else case x of
             Finite a \<Rightarrow> Inr (to_float (a / y))
           | PosInf \<Rightarrow> Inr (if 0 < y then PosInf else NegInf)
           | NegInf \<Rightarrow> Inr (if 0 < y then NegInf else PosInf)
           | NaN \<Rightarrow> Inr NaN)"
| "float_truediv x NaN = Inr NaN"
| "float_truediv (Finite a) y = Inr (Finite 0)"
| "float_truediv x y = Inr NaN"

text \<open>The comparison \<open>x > 0\<close> of a float with the integer zero; it is false for a NaN.\<close>

fun float_pos :: "pyfloat \<Rightarrow> bool" where
  "float_pos (Finite x) = (0 < x)"
| "float_pos PosInf = True"
| "float_pos NegInf = False"
| "float_pos NaN = False"

text \<open>
  The conversion of an integer to a float, which an arithmetic operation applies to an
  integer operand when the other is a float. It raises \<open>OverflowError\<close> when the integer is
  too large.
\<close>

definition float_of_int :: "int \<Rightarrow> py_error + pyfloat" where
  "float_of_int a =
    (let d = nearest_double (of_int a)
     in if 2 ^ 1024 \<le> \<bar>d\<bar> then Inl OverflowError else Inr (Finite d))"

text \<open>
  \<open>a / b\<close> for two integers: the quotient is rounded once, from its exact value. It raises
  \<open>ZeroDivisionError\<close> for a zero divisor and \<open>OverflowError\<close> when the result is too large
  for a float.
\<close>

definition int_truediv :: "int \<Rightarrow> int \<Rightarrow> py_error + pyfloat" where
  "int_truediv a b =
    (if b = 0 then Inl ZeroDivisionError
     else let q = nearest_double (of_int a / of_int b)
          in if 2 ^ 1024 \<le> \<bar>q\<bar> then Inl OverflowError else Inr (Finite q))"

text \<open>\<open>math.ceil\<close> of a float: an integer, and an exception for an infinity or a NaN.\<close>

fun math_ceil :: "pyfloat \<Rightarrow> py_error + int" where
  "math_ceil (Finite x) = Inr \<lceil>x\<rceil>"
| "math_ceil PosInf = Inl OverflowError"
| "math_ceil NegInf = Inl OverflowError"
| "math_ceil NaN = Inl ValueError"

text \<open>
  \<open>round(x, ndigits)\<close> for a float and \<open>ndigits \<ge> 0\<close>: the exact value of \<open>x\<close> is rounded to
  \<open>ndigits\<close> decimal places, a tie going to the even digit, and the decimal number is
  converted to the nearest float. An infinity or a NaN is returned as it is.
\<close>

fun round_py :: "pyfloat \<Rightarrow> nat \<Rightarrow> pyfloat" where
  "round_py (Finite x) ndigits = to_float (of_int (round_half_even (x * 10 ^ ndigits)) / 10 ^ ndigits)"
| "round_py x ndigits = x"

subsection \<open>The random source\<close>

text \<open>
  \<open>random.randint(a, b)\<close> returns an integer \<open>N\<close> with \<open>a \<le> N \<le> b\<close>. The model takes the
  entropy as a natural number \<open>r\<close> supplied by the environment and reduces it into the range,
  so every integer of the range can be returned and no other.
\<close>

definition randint :: "int \<Rightarrow> int \<Rightarrow> nat \<Rightarrow> int" where
  "randint a b r = a + int r mod (b - a + 1)"

text \<open>
  \<open>random.random()\<close> returns a float \<open>k / 2 ^ 53\<close> with \<open>0 \<le> k < 2 ^ 53\<close>, taken from the
  entropy \<open>r\<close>; \<open>random.uniform(a, b)\<close> is \<open>a + (b - a) * random()\<close>, computed in floats.
\<close>

definition random_random :: "nat \<Rightarrow> pyfloat" where
  "random_random r = Finite (of_nat (r mod 2 ^ 53) / 2 ^ 53)"

definition uniform :: "pyfloat \<Rightarrow> pyfloat \<Rightarrow> nat \<Rightarrow> pyfloat" where
  "uniform a b r = float_add a (float_mul (float_sub b a) (random_random r))"

text \<open>
  What the environment supplies for one record, in the order the code asks for it:
  the UUID, the entropy of every \<open>randint\<close> call and of the \<open>uniform\<close> call, and the
  strings of the Faker calls.
\<close>

record draws =
  d_uuid :: string
  d_jitter :: nat
  d_first_name :: string
  d_last_name :: string
  d_phone :: nat
  d_id_number :: nat
  d_dob :: nat
  d_amount :: nat
  d_city :: string
  d_state :: string
  d_street :: string
  d_zip :: string
  d_id_type :: nat
  d_id_state :: string
  d_ctr_id :: nat
  d_employee :: nat
  d_txn :: nat

section \<open>Payload generator\<close>

datatype json = JBool bool | JInt int | JStr string | JFloat pyfloat

type_synonym json_object = "(string \<times> json) list"

text \<open>
  \<open>generate_msg\<close> builds the dictionary \<open>msg\<close> and returns \<open>json.dumps(msg)\<close>, the JSON
  text of that dictionary. The model keeps the dictionary itself, as the list of its
  items in insertion order; the text is the library's rendering of it.
\<close>

definition generate_msg :: "string \<Rightarrow> string \<Rightarrow> int \<Rightarrow> draws \<Rightarrow> json_object" where
  "generate_msg uid loc ts d =
    (let first_name = d_first_name d;
         last_name = d_last_name d;
         phone = str_int (randint 6000000000 9999999999 (d_phone d));
         id_number = str_int (randint 10000000 99999999 (d_id_number d));
         dob = randint 19600101 20051231 (d_dob d);
         amount = round_py (uniform (Finite 1000) (to_float (9999999 / 100)) (d_amount d)) 2
     in [(''entity'', JBool False),
         (''entityIndividualLastName'', JStr last_name),
         (''individualFirstName'', JStr first_name),
         (''city'', JStr (d_city d)),
         (''countryCode'', JStr ''US''),
         (''stateCode'', JStr (d_state d)),
         (''streetAddress'', JStr (d_street d)),
         (''zipCode'', JStr (d_zip d)),
         (''phoneNumber'', JStr phone),
         (''tinIssuerCountry'', JStr ''US''),
         (''idType'', JInt (randint 1 9 (d_id_type d))),
         (''idIssuerCountry'', JStr ''US''),
         (''idIssuerState'', JStr (d_id_state d)),
         (''idNumber'', JStr id_number),
         (''dob'', JInt dob),
         (''uid'', JStr uid),
         (''location'', JStr loc),
         (''ts'', JInt ts),
         (''ctrId'', JInt (randint 10 99 (d_ctr_id d))),
         (''amount'', JFloat amount),
         (''employeeId'', JStr (str_int (randint 40000 49999 (d_employee d))))])"

text \<open>Reading a field of the object (\<open>msg[key]\<close>).\<close>

definition get_field :: "json_object \<Rightarrow> string \<Rightarrow> json option" where
  "get_field obj k = map_of obj k"

section \<open>Configuration\<close>

text \<open>
  The module-level constants read from the environment (\<open>TOTAL_RECORDS\<close>, \<open>BATCH_SIZE\<close>,
  \<open>THREADS\<close>) and the run-start instant \<open>start_ts\<close> in milliseconds.
\<close>

record config =
  TOTAL_RECORDS :: int
  BATCH_SIZE :: int
  THREADS :: int
  start_ts :: int

section \<open>Coordinator\<close>

text \<open>The arguments of one \<open>executor.submit(insert_worker, ...)\<close> call.\<close>

record task =
  worker_id :: int
  start_index :: int
  end_index :: int
  total_all_threads :: int
  t0 :: rat

text \<open>
  \<open>math.ceil(TOTAL_RECORDS / THREADS)\<close>: the true division of the two integers, which gives
  a float or raises, then the ceiling of that float, an integer.
\<close>

definition per_thread :: "config \<Rightarrow> py_error + int" where
  "per_thread cfg =
    (case int_truediv (TOTAL_RECORDS cfg) (THREADS cfg) of
       Inl e \<Rightarrow> Inl e
     | Inr q \<Rightarrow> math_ceil q)"

text \<open>\<open>range(n)\<close>: the integers \<open>0, ..., n - 1\<close>, none when \<open>n \<le> 0\<close>.\<close>

definition py_range :: "int \<Rightarrow> int list" where
  "py_range n = map int [0 ..< nat n]"

text \<open>
  The submission loop of \<open>main\<close>; \<open>p\<close> is \<open>per_thread\<close>, \<open>now\<close> the value of \<open>t0\<close>, and
  \<open>tasks\<close> the list the loop appends to.
\<close>

fun submit_all :: "config \<Rightarrow> int \<Rightarrow> rat \<Rightarrow> int list \<Rightarrow> task list \<Rightarrow> task list" where
  "submit_all cfg p now [] tasks = tasks"
| "submit_all cfg p now (i # rest) tasks =
     submit_all cfg p now rest
       (tasks @ [\<lparr>worker_id = i + 1,
                  start_index = i * p,
                  end_index = min ((i + 1) * p) (TOTAL_RECORDS cfg),
                  total_all_threads = TOTAL_RECORDS cfg,
                  t0 = now\<rparr>])"

text \<open>
  The tasks \<open>main\<close> submits when the clock reads \<open>now\<close>.
  \<open>ThreadPoolExecutor(max_workers=THREADS)\<close> raises \<open>ValueError\<close> unless \<open>THREADS > 0\<close>.
\<close>

definition main_tasks :: "config \<Rightarrow> rat \<Rightarrow> py_error + task list" where
  "main_tasks cfg now =
    (case per_thread cfg of
       Inl e \<Rightarrow> Inl e
     | Inr p \<Rightarrow>
         if THREADS cfg \<le> 0 then Inl ValueError
         else Inr (submit_all cfg p now (py_range (THREADS cfg)) []))"

text \<open>The number of records of a range, \<open>end_index - start_index\<close>.\<close>

definition range_size :: "task \<Rightarrow> int" where
  "range_size tk = end_index tk - start_index tk"

section \<open>Worker\<close>

text \<open>One row of the destination table, as the tuple appended to \<open>batch\<close>.\<close>

record row =
  channel_id :: int
  unique_id :: string
  loc_detail :: string
  row_ts :: int
  msg :: json_object
  action :: int
  txn_id :: int
  nil_action :: int
  nil_id :: "int option"

text \<open>One progress line, and the line a worker prints when it is done.\<close>

record progress =
  by_worker :: int
  inserted_so_far :: int
  out_of :: int
  percent :: pyfloat
  left :: int
  rate :: pyfloat
  eta :: pyfloat

datatype line = Progress progress | Completed int int

text \<open>
  The state a worker acts on. \<open>global_inserted\<close> is the shared counter, \<open>written\<close> the
  batches handed to \<open>executemany\<close> so far, \<open>table\<close> the committed rows and \<open>stdout\<close> the
  lines printed. The environment is part of the state: \<open>entropy\<close> gives the random values
  of the records to come, \<open>clock\<close> the successive readings of \<open>time.time()\<close>, and
  \<open>db_ok\<close> whether each bulk insert and its commit succeed.
\<close>

record world =
  global_inserted :: int
  written :: "row list list"
  table :: "row list"
  stdout :: "line list"
  entropy :: "draws stream"
  clock :: "rat stream"
  db_ok :: "bool stream"

text \<open>The tuple appended to \<open>batch\<close> for one record.\<close>

definition make_row :: "config \<Rightarrow> int \<Rightarrow> string \<Rightarrow> draws \<Rightarrow> row" where
  "make_row cfg wid loc d =
    (let uid = d_uuid d;
         t = start_ts cfg + randint 0 10000000 (d_jitter d)
     in \<lparr>channel_id = wid, unique_id = uid, loc_detail = loc, row_ts = t,
         msg = generate_msg uid loc t d, action = 10,
         txn_id = randint 7000 999999 (d_txn d), nil_action = 12, nil_id = None\<rparr>)"

text \<open>The inner \<open>for\<close> loop, over \<open>range(min(BATCH_SIZE, total - inserted))\<close>.\<close>

fun fill_batch ::
  "config \<Rightarrow> int \<Rightarrow> string \<Rightarrow> int list \<Rightarrow> draws stream \<Rightarrow> row list \<Rightarrow> row list \<times> draws stream"
where
  "fill_batch cfg wid loc [] s batch = (batch, s)"
| "fill_batch cfg wid loc (k # rest) s batch =
     fill_batch cfg wid loc rest (stl s) (batch @ [make_row cfg wid loc (shd s)])"

text \<open>
  Lines 132 to 149: build the batch, hand it to \<open>executemany\<close> and commit. The result is
  the batch, or the exception of a failed insert, with the state after it.
\<close>

definition write_batch ::
  "config \<Rightarrow> task \<Rightarrow> string \<Rightarrow> int \<Rightarrow> world \<Rightarrow> (py_error + row list) \<times> world"
where
  "write_batch cfg tk loc ins w =
    (let total = end_index tk - start_index tk;
         (batch, s) = fill_batch cfg (worker_id tk) loc
                        (py_range (min (BATCH_SIZE cfg) (total - ins))) (entropy w) [];
         w1 = w\<lparr>entropy := s, written := written w @ [batch], db_ok := stl (db_ok w)\<rparr>
     in if shd (db_ok w) then (Inr batch, w1\<lparr>table := table w1 @ batch\<rparr>)
        else (Inl DatabaseError, w1))"

text \<open>
  Line 155, \<open>(global_inserted / total_all_threads) * 100\<close>, for the counter value \<open>g\<close> and
  the grand total \<open>tot\<close>: the division of two integers, then a float multiplication.
\<close>

definition percent_of :: "int \<Rightarrow> int \<Rightarrow> py_error + pyfloat" where
  "percent_of g tot =
    (case int_truediv g tot of
       Inl e \<Rightarrow> Inl e
     | Inr q \<Rightarrow> Inr (float_mul q (Finite 100)))"

text \<open>
  An integer divided by a float, as in \<open>global_inserted / elapsed\<close> and \<open>left / rate\<close>: the
  integer is converted, then the floats are divided.
\<close>

definition int_div_float :: "int \<Rightarrow> pyfloat \<Rightarrow> py_error + pyfloat" where
  "int_div_float a y =
    (case float_of_int a of
       Inl e \<Rightarrow> Inl e
     | Inr x \<Rightarrow> float_truediv x y)"

text \<open>
  Lines 158 and 159 with the progress line, for the percentage and the elapsed time
  already computed. The integer \<open>0\<close> of an \<open>else\<close> branch is printed as the float zero.
\<close>

definition report :: "int \<Rightarrow> int \<Rightarrow> int \<Rightarrow> pyfloat \<Rightarrow> pyfloat \<Rightarrow> py_error + progress" where
  "report wid g tot pct elapsed =
    (let lft = tot - g
     in case (if float_pos elapsed then int_div_float g elapsed else Inr (Finite 0)) of
          Inl e \<Rightarrow> Inl e
        | Inr rt \<Rightarrow>
            (case (if float_pos rt then int_div_float lft rt else Inr (Finite 0)) of
               Inl e \<Rightarrow> Inl e
             | Inr et \<Rightarrow>
                 Inr \<lparr>by_worker = wid, inserted_so_far = g, out_of = tot,
                      percent = pct, left = lft, rate = rt, eta = et\<rparr>))"

text \<open>
  The block under \<open>progress_lock\<close> (lines 153 to 164) for a batch of \<open>n\<close> rows, where \<open>v\<close>
  is the value of \<open>global_inserted\<close> that the increment has loaded: it stores \<open>v + n\<close>,
  computes the percentage, then reads the clock, computes rate and ETA and prints the
  progress line. The clock readings and \<open>t0\<close> are finite floats.
\<close>

definition record_batch :: "task \<Rightarrow> int \<Rightarrow> int \<Rightarrow> world \<Rightarrow> (py_error + progress) \<times> world" where
  "record_batch tk v n w =
    (let g = v + n;
         w1 = w\<lparr>global_inserted := g\<rparr>
     in case percent_of g (total_all_threads tk) of
          Inl e \<Rightarrow> (Inl e, w1)
        | Inr pct \<Rightarrow>
            let elapsed = float_sub (Finite (shd (clock w1))) (Finite (t0 tk));
                w2 = w1\<lparr>clock := stl (clock w1)\<rparr>
            in case report (worker_id tk) g (total_all_threads tk) pct elapsed of
                 Inl e \<Rightarrow> (Inl e, w2)
               | Inr p \<Rightarrow> (Inr p, w2\<lparr>stdout := stdout w2 @ [Progress p]\<rparr>))"

text \<open>One iteration of the \<open>while\<close> loop of a worker that runs alone.\<close>

definition iteration ::
  "config \<Rightarrow> task \<Rightarrow> string \<Rightarrow> int \<Rightarrow> world \<Rightarrow> (py_error + int) \<times> world"
where
  "iteration cfg tk loc ins w =
    (case write_batch cfg tk loc ins w of
       (Inl e, w1) \<Rightarrow> (Inl e, w1)
     | (Inr batch, w1) \<Rightarrow>
         (case record_batch tk (global_inserted w1) (int (length batch)) w1 of
            (Inl e, w2) \<Rightarrow> (Inl e, w2)
          | (Inr p, w2) \<Rightarrow> (Inr (ins + int (length batch)), w2)))"

text \<open>
  The \<open>while inserted < total\<close> loop. It need not terminate (a batch size below one adds
  nothing to \<open>inserted\<close>), so the result is optional: \<open>None\<close> is a loop that runs forever.
\<close>

partial_function (option) worker_loop ::
  "config \<Rightarrow> task \<Rightarrow> string \<Rightarrow> int \<Rightarrow> world \<Rightarrow> ((py_error + int) \<times> world) option"
where
  "worker_loop cfg tk loc ins w =
    (if ins < end_index tk - start_index tk
     then (let r = iteration cfg tk loc ins w
           in if isl (fst r) then Some r
              else worker_loop cfg tk loc (projr (fst r)) (snd r))
     else Some (Inr ins, w))"

text \<open>
  \<open>insert_worker\<close>. Opening the connection, the session statements and closing change
  neither the table nor the counter and are left out. The result is the returned pair
  \<open>(worker_id, total)\<close> or the exception that ended the worker.
\<close>

definition insert_worker ::
  "config \<Rightarrow> task \<Rightarrow> world \<Rightarrow> ((py_error + int \<times> int) \<times> world) option"
where
  "insert_worker cfg tk w =
    (let loc = ''ARCC'' @ format_04d (worker_id tk);
         total = end_index tk - start_index tk
     in case worker_loop cfg tk loc 0 w of
          None \<Rightarrow> None
        | Some (Inl e, w') \<Rightarrow> Some (Inl e, w')
        | Some (Inr ins, w') \<Rightarrow>
            Some (Inr (worker_id tk, total),
                  w'\<lparr>stdout := stdout w' @ [Completed (worker_id tk) total]\<rparr>))"

section \<open>Workers running concurrently\<close>

text \<open>
  The workers run as threads of one pool and share \<open>global_inserted\<close>, the table, the
  standard output and \<open>progress_lock\<close>. A run is an interleaving of their steps. A step
  of a worker is one of: the loop test with the building and writing of a batch (which
  touches no shared variable but the table); acquiring the lock, possible only when no
  thread holds it; loading \<open>global_inserted\<close>; storing the sum, printing the progress
  line and releasing the lock. The increment \<open>global_inserted += len(batch)\<close> is a load
  and a store, two separate steps; \<open>len(batch)\<close> is kept in the program counter.
\<close>

datatype pc =
    AtLoop
  | WaitLock int
  | Locked int
  | Loaded int int
  | Finished
  | Failed py_error

record thread =
  th_task :: task
  inserted :: int
  th_pc :: pc

record system =
  shared :: world
  lock :: "nat option"
  threads :: "thread list"

text \<open>The step of thread \<open>i\<close>; a thread that is blocked, done or absent leaves the state as it is.\<close>

definition step :: "config \<Rightarrow> nat \<Rightarrow> system \<Rightarrow> system" where
  "step cfg i sys =
    (if length (threads sys) \<le> i then sys
     else
       let th = threads sys ! i;
           tk = th_task th;
           w = shared sys
       in case th_pc th of
            AtLoop \<Rightarrow>
              if inserted th < end_index tk - start_index tk
              then (case write_batch cfg tk (''ARCC'' @ format_04d (worker_id tk)) (inserted th) w of
                      (Inl e, w1) \<Rightarrow>
                        sys\<lparr>shared := w1, threads := (threads sys)[i := th\<lparr>th_pc := Failed e\<rparr>]\<rparr>
                    | (Inr batch, w1) \<Rightarrow>
                        sys\<lparr>shared := w1,
                            threads := (threads sys)
                              [i := th\<lparr>inserted := inserted th + int (length batch),
                                       th_pc := WaitLock (int (length batch))\<rparr>]\<rparr>)
              else sys\<lparr>shared := w\<lparr>stdout := stdout w @
                                   [Completed (worker_id tk) (end_index tk - start_index tk)]\<rparr>,
                       threads := (threads sys)[i := th\<lparr>th_pc := Finished\<rparr>]\<rparr>
          | WaitLock n \<Rightarrow>
              (case lock sys of
                 None \<Rightarrow> sys\<lparr>lock := Some i, threads := (threads sys)[i := th\<lparr>th_pc := Locked n\<rparr>]\<rparr>
               | Some j \<Rightarrow> sys)
          | Locked n \<Rightarrow>
              sys\<lparr>threads := (threads sys)[i := th\<lparr>th_pc := Loaded n (global_inserted w)\<rparr>]\<rparr>
          | Loaded n v \<Rightarrow>
              (case record_batch tk v n w of
                 (Inl e, w1) \<Rightarrow>
                   sys\<lparr>shared := w1, lock := None,
                       threads := (threads sys)[i := th\<lparr>th_pc := Failed e\<rparr>]\<rparr>
               | (Inr p, w1) \<Rightarrow>
                   sys\<lparr>shared := w1, lock := None,
                       threads := (threads sys)[i := th\<lparr>th_pc := AtLoop\<rparr>]\<rparr>)
          | Finished \<Rightarrow> sys
          | Failed e \<Rightarrow> sys)"

text \<open>A schedule names the thread that moves at each step; \<open>run\<close> follows it.\<close>

fun run :: "config \<Rightarrow> nat list \<Rightarrow> system \<Rightarrow> system" where
  "run cfg [] sys = sys"
| "run cfg (i # sched) sys = run cfg sched (step cfg i sys)"

text \<open>
  The state in which \<open>main\<close> starts the workers: the counter is zero, the table has just
  been created, and every task is at the head of its loop.
\<close>

definition fresh_world :: "draws stream \<Rightarrow> rat stream \<Rightarrow> bool stream \<Rightarrow> world" where
  "fresh_world en ck dk =
    \<lparr>global_inserted = 0, written = [], table = [], stdout = [],
     entropy = en, clock = ck, db_ok = dk\<rparr>"

definition launch :: "task list \<Rightarrow> world \<Rightarrow> system" where
  "launch tasks w =
    \<lparr>shared = w, lock = None,
     threads = map (\<lambda>tk. \<lparr>th_task = tk, inserted = 0, th_pc = AtLoop\<rparr>) tasks\<rparr>"

definition main_system :: "config \<Rightarrow> rat \<Rightarrow> world \<Rightarrow> py_error + system" where
  "main_system cfg now w =
    (case main_tasks cfg now of
       Inl e \<Rightarrow> Inl e
     | Inr tasks \<Rightarrow> Inr (launch tasks w))"

definition all_finished :: "system \<Rightarrow> bool" where
  "all_finished sys = list_all (\<lambda>th. th_pc th = Finished) (threads sys)"

text \<open>The progress lines among the printed lines, in the order printed.\<close>

fun progress_lines :: "line list \<Rightarrow> progress list" where
  "progress_lines [] = []"
| "progress_lines (Progress p # rest) = p # progress_lines rest"
| "progress_lines (Completed wid n # rest) = progress_lines rest"

section \<open>Notions used in the statements\<close>

text \<open>The task that the submission loop appends for the index \<open>i\<close>.\<close>

definition the_task :: "config \<Rightarrow> int \<Rightarrow> rat \<Rightarrow> int \<Rightarrow> task" where
  "the_task cfg p now i =
     \<lparr>worker_id = i + 1, start_index = i * p,
      end_index = min ((i + 1) * p) (TOTAL_RECORDS cfg),
      total_all_threads = TOTAL_RECORDS cfg, t0 = now\<rparr>"

text \<open>
  A sequence of batches follows the chunking rule from \<open>ins\<close> inserted rows on: each
  batch has \<open>min(BATCH_SIZE, total - inserted)\<close> rows, at least one and at most
  \<open>BATCH_SIZE\<close>, where \<open>inserted\<close> counts the rows of the batches before it.
\<close>

fun chunks_ok :: "int \<Rightarrow> int \<Rightarrow> int \<Rightarrow> row list list \<Rightarrow> bool" where
  "chunks_ok b tot ins [] = True"
| "chunks_ok b tot ins (batch # rest) =
     (int (length batch) = min b (tot - ins) \<and>
      1 \<le> int (length batch) \<and> int (length batch) \<le> b \<and>
      chunks_ok b tot (ins + int (length batch)) rest)"


section \<open>Properties of the payload generator\<close>

subsection \<open>Decimal digits\<close>

lemma randint_range:
  assumes "a \<le> b"
  shows "a \<le> randint a b r" and "randint a b r \<le> b"
proof -
  have pos: "0 < b - a + 1" using assms by simp
  have "0 \<le> int r mod (b - a + 1)" using pos by (rule pos_mod_sign)
  then show "a \<le> randint a b r" unfolding randint_def by linarith
  have "int r mod (b - a + 1) < b - a + 1" using pos by (rule pos_mod_bound)
  then show "randint a b r \<le> b" unfolding randint_def by linarith
qed

lemma digit_char_isdigit: "d < 10 \<Longrightarrow> isdigit (digit_char d)"
  by (simp add: isdigit_def digit_char_def del: set_simps)

lemma digits_isdigit: "list_all isdigit (digits n)"
proof (induction n rule: digits.induct)
  case (1 n)
  show ?case
  proof (cases "n < 10")
    case True
    then show ?thesis by (simp add: digits.simps [of n] digit_char_isdigit)
  next
    case False
    with 1 show ?thesis by (simp add: digits.simps [of n] digit_char_isdigit)
  qed
qed

lemma digits_not_Nil: "digits n \<noteq> []"
  by (simp add: digits.simps [of n])

lemma length_digits:
  "10 ^ k \<le> n \<Longrightarrow> n < 10 ^ Suc k \<Longrightarrow> length (digits n) = Suc k"
proof (induction k arbitrary: n)
  case 0
  then show ?case by (simp add: digits.simps [of n])
next
  case (Suc k)
  from Suc.prems have ge: "10 \<le> n"
    by (metis (no_types) le_trans power_Suc mult.right_neutral mult_le_mono2 one_le_numeral one_le_power)
  have lo: "10 ^ k \<le> n div 10" using Suc.prems(1) by (simp add: less_eq_div_iff_mult_less_eq mult.commute)
  have hi: "n div 10 < 10 ^ Suc k" using Suc.prems(2) by (simp add: div_less_iff_less_mult mult.commute)
  from Suc.IH [OF lo hi] ge show ?case by (simp add: digits.simps [of n])
qed

lemma hd_digits:
  "10 ^ k \<le> n \<Longrightarrow> n < 10 ^ Suc k \<Longrightarrow> hd (digits n) = digit_char (n div 10 ^ k)"
proof (induction k arbitrary: n)
  case 0
  then show ?case by (simp add: digits.simps [of n])
next
  case (Suc k)
  from Suc.prems have ge: "10 \<le> n"
    by (metis (no_types) le_trans power_Suc mult.right_neutral mult_le_mono2 one_le_numeral one_le_power)
  have lo: "10 ^ k \<le> n div 10" using Suc.prems(1) by (simp add: less_eq_div_iff_mult_less_eq mult.commute)
  have hi: "n div 10 < 10 ^ Suc k" using Suc.prems(2) by (simp add: div_less_iff_less_mult mult.commute)
  have "hd (digits n) = hd (digits (n div 10))"
    using ge by (simp add: digits.simps [of n] digits_not_Nil)
  also have "\<dots> = digit_char (n div 10 div 10 ^ k)" by (rule Suc.IH [OF lo hi])
  also have "n div 10 div 10 ^ k = n div 10 ^ Suc k" by (simp add: div_mult2_eq)
  finally show ?case .
qed

lemma digit_val_digit_char: "d < 10 \<Longrightarrow> digit_val (digit_char d) = d"
proof -
  assume "d < 10"
  then have "d \<in> {0, 1, 2, 3, 4, 5, 6, 7, 8, 9}" by auto
  then show ?thesis by (auto simp: digit_val_def digit_char_def)
qed

lemma foldl_digits:
  "foldl (\<lambda>acc c. 10 * acc + digit_val c) 0 (digits n) = n"
proof (induction n rule: digits.induct)
  case (1 n)
  show ?case
  proof (cases "n < 10")
    case True
    then show ?thesis by (simp add: digits.simps [of n] digit_val_digit_char)
  next
    case False
    with 1 show ?thesis by (simp add: digits.simps [of n] digit_val_digit_char)
  qed
qed

lemma int_of_digits_str_int: "0 \<le> i \<Longrightarrow> int_of_digits (str_int i) = i"
  by (simp add: int_of_digits_def str_int_def foldl_digits)


lemma str_int_nonneg: "0 \<le> i \<Longrightarrow> str_int i = digits (nat i)"
  by (simp add: str_int_def)

lemma str_int_shape:
  assumes "10 ^ k \<le> i" and "i < 10 ^ Suc k"
  shows "length (str_int i) = Suc k" and "list_all isdigit (str_int i)"
    and "hd (str_int i) = digit_char (nat i div 10 ^ k)"
proof -
  have "(0::int) \<le> 10 ^ k" by simp
  with assms(1) have nn: "0 \<le> i" by linarith
  have "int (10 ^ k) \<le> i" using assms(1) by simp
  then have lo: "10 ^ k \<le> nat i" by linarith
  have "i < int (10 ^ Suc k)" using assms(2) by simp
  then have hi: "nat i < 10 ^ Suc k" using nn by linarith
  show "length (str_int i) = Suc k" using length_digits [OF lo hi] nn by (simp add: str_int_nonneg)
  show "list_all isdigit (str_int i)" using nn by (simp add: str_int_nonneg digits_isdigit)
  show "hd (str_int i) = digit_char (nat i div 10 ^ k)"
    using hd_digits [OF lo hi] nn by (simp add: str_int_nonneg)
qed

lemma digit_char_6_9: "6 \<le> d \<Longrightarrow> d < 10 \<Longrightarrow> digit_char d \<in> set ''6789''"
proof -
  assume "6 \<le> d" "d < 10"
  then have "d = 6 \<or> d = 7 \<or> d = 8 \<or> d = 9" by arith
  then show ?thesis by (elim disjE) (simp_all add: digit_char_def)
qed

lemma leading_digit_6_9:
  assumes "6000000000 \<le> i" and "i \<le> 9999999999"
  shows "hd (str_int i) \<in> set ''6789''"
proof -
  have s: "hd (str_int i) = digit_char (nat i div 10 ^ 9)"
    using str_int_shape(3) [of 9 i] assms by simp
  have "6 \<le> nat i div 1000000000" using assms(1) by arith
  moreover have "nat i div 1000000000 < 10" using assms(2) by arith
  ultimately have "digit_char (nat i div 1000000000) \<in> set ''6789''" by (rule digit_char_6_9)
  then show ?thesis unfolding s by (simp del: set_simps)
qed


subsection \<open>The fields of the payload\<close>

text \<open>
  Claim C9. Whatever the inputs \<open>uid\<close>, \<open>loc\<close>, \<open>t\<close> and the random draws, the object
  that \<open>generate_msg\<close> serialises has \<open>entity\<close> equal to false, the country code
  \<open>US\<close>, a phone number of exactly ten digits whose first digit is 6, 7, 8 or 9, an id
  number of exactly eight digits, a \<open>dob\<close> between 19600101 and 20051231 (so of eight
  digits), a \<open>ctrId\<close> between 10 and 99, an employee id that is a digit string whose
  value lies between 40000 and 49999, and \<open>uid\<close>, \<open>location\<close> and \<open>ts\<close> equal to the
  three inputs.
\<close>

theorem generate_msg_fields:
  "get_field (generate_msg uid loc t d) ''entity'' = Some (JBool False) \<and>
   get_field (generate_msg uid loc t d) ''countryCode'' = Some (JStr ''US'') \<and>
   (\<exists>p. get_field (generate_msg uid loc t d) ''phoneNumber'' = Some (JStr p) \<and>
        length p = 10 \<and> list_all isdigit p \<and> hd p \<in> set ''6789'') \<and>
   (\<exists>s. get_field (generate_msg uid loc t d) ''idNumber'' = Some (JStr s) \<and>
        length s = 8 \<and> list_all isdigit s) \<and>
   (\<exists>n. get_field (generate_msg uid loc t d) ''dob'' = Some (JInt n) \<and>
        19600101 \<le> n \<and> n \<le> 20051231 \<and> length (str_int n) = 8) \<and>
   (\<exists>c. get_field (generate_msg uid loc t d) ''ctrId'' = Some (JInt c) \<and> 10 \<le> c \<and> c \<le> 99) \<and>
   (\<exists>e. get_field (generate_msg uid loc t d) ''employeeId'' = Some (JStr e) \<and>
        list_all isdigit e \<and> 40000 \<le> int_of_digits e \<and> int_of_digits e \<le> 49999) \<and>
   get_field (generate_msg uid loc t d) ''uid'' = Some (JStr uid) \<and>
   get_field (generate_msg uid loc t d) ''location'' = Some (JStr loc) \<and>
   get_field (generate_msg uid loc t d) ''ts'' = Some (JInt t)"
proof -
  let ?ph = "randint 6000000000 9999999999 (d_phone d)"
  let ?idn = "randint 10000000 99999999 (d_id_number d)"
  let ?dob = "randint 19600101 20051231 (d_dob d)"
  let ?ctr = "randint 10 99 (d_ctr_id d)"
  let ?emp = "randint 40000 49999 (d_employee d)"
  have ph: "6000000000 \<le> ?ph" "?ph \<le> 9999999999" by (simp_all add: randint_range)
  have idn: "10000000 \<le> ?idn" "?idn \<le> 99999999" by (simp_all add: randint_range)
  have dob: "19600101 \<le> ?dob" "?dob \<le> 20051231" by (simp_all add: randint_range)
  have ctr: "10 \<le> ?ctr" "?ctr \<le> 99" by (simp_all add: randint_range)
  have emp: "40000 \<le> ?emp" "?emp \<le> 49999" by (simp_all add: randint_range)
  have phone: "length (str_int ?ph) = 10 \<and> list_all isdigit (str_int ?ph) \<and> hd (str_int ?ph) \<in> set ''6789''"
    using str_int_shape(1,2) [of 9 ?ph] leading_digit_6_9 [OF ph] ph by simp
  have idnum: "length (str_int ?idn) = 8 \<and> list_all isdigit (str_int ?idn)"
    using str_int_shape(1,2) [of 7 ?idn] idn by simp
  have dob8: "length (str_int ?dob) = 8"
    using str_int_shape(1) [of 7 ?dob] dob by simp
  have empv: "list_all isdigit (str_int ?emp) \<and> int_of_digits (str_int ?emp) = ?emp"
    using str_int_shape(2) [of 4 ?emp] int_of_digits_str_int [of ?emp] emp by simp
  show ?thesis
    using phone idnum dob dob8 ctr emp empv
    by (simp add: generate_msg_def get_field_def Let_def)
qed

section \<open>Properties of the float operations\<close>

subsection \<open>Rounding to an integer\<close>

lemma round_half_even_floor: "\<lfloor>x\<rfloor> \<le> round_half_even x" "round_half_even x \<le> \<lfloor>x\<rfloor> + 1"
  by (simp_all add: round_half_even_def Let_def)

lemma round_half_even_of_int [simp]: "round_half_even (of_int j) = j"
  by (simp add: round_half_even_def)

lemma round_half_even_ge:
  assumes "of_int j \<le> x" shows "j \<le> round_half_even x"
proof -
  have "j \<le> \<lfloor>x\<rfloor>" using assms by (simp add: le_floor_iff)
  with round_half_even_floor(1) [of x] show ?thesis by linarith
qed

lemma round_half_even_le:
  assumes "x \<le> of_int j" shows "round_half_even x \<le> j"
proof (cases "x = of_int j")
  case True then show ?thesis by simp
next
  case False
  with assms have "x < of_int j" by simp
  then have "\<lfloor>x\<rfloor> < j" by (simp add: floor_less_iff)
  with round_half_even_floor(2) [of x] show ?thesis by linarith
qed

lemma round_half_even_gt:
  assumes "of_int j + 1 / 2 < x" shows "j < round_half_even x"
proof -
  have j: "j \<le> \<lfloor>x\<rfloor>" using assms by (simp add: le_floor_iff)
  show ?thesis
  proof (cases "j = \<lfloor>x\<rfloor>")
    case True
    with assms have "1 / 2 < x - of_int \<lfloor>x\<rfloor>" by simp
    then have "round_half_even x = \<lfloor>x\<rfloor> + 1" by (simp add: round_half_even_def Let_def)
    with True show ?thesis by simp
  next
    case False
    with j round_half_even_floor(1) [of x] show ?thesis by linarith
  qed
qed

lemma round_half_even_lt:
  assumes "x < of_int j - 1 / 2" shows "round_half_even x < j"
proof -
  have "x < of_int j" using assms by linarith
  then have j: "\<lfloor>x\<rfloor> < j" by (simp add: floor_less_iff)
  show ?thesis
  proof (cases "\<lfloor>x\<rfloor> + 1 = j")
    case True
    then have "of_int j = of_int \<lfloor>x\<rfloor> + (1 :: rat)" by (metis of_int_1 of_int_add)
    with assms have "x - of_int \<lfloor>x\<rfloor> < 1 / 2" by linarith
    then have "round_half_even x = \<lfloor>x\<rfloor>" by (simp add: round_half_even_def Let_def)
    with j show ?thesis by simp
  next
    case False
    with j round_half_even_floor(2) [of x] show ?thesis by linarith
  qed
qed



subsection \<open>The binary exponent\<close>

lemma bitlen_powi:
  assumes "0 < a"
  shows "(2::rat) powi (bitlen a - 1) \<le> of_int a" and "of_int a < (2::rat) powi bitlen a"
proof -
  from assms have b: "2 ^ nat (bitlen a - 1) \<le> a" "a < 2 ^ nat (bitlen a)"
    using bitlen_bounds [of a] by simp_all
  have ge: "1 \<le> bitlen a" using assms bitlen_eq_zero_iff [of a] bitlen_nonneg [of a] by linarith
  have "(2::rat) powi (bitlen a - 1) = of_int (2 ^ nat (bitlen a - 1))"
    using ge by (simp add: power_int_def)
  also have "\<dots> \<le> of_int a" using b(1) by (simp only: of_int_le_iff)
  finally show "(2::rat) powi (bitlen a - 1) \<le> of_int a" .
  have "(of_int a :: rat) < of_int (2 ^ nat (bitlen a))" using b(2) by (simp only: of_int_less_iff)
  also have "\<dots> = 2 powi bitlen a" using ge by (simp add: power_int_def)
  finally show "of_int a < (2::rat) powi bitlen a" .
qed

lemma ilog2_bounds:
  assumes "0 < x"
  shows "2 powi ilog2 x \<le> x" and "x < 2 powi (ilog2 x + 1)"
proof -
  obtain a b where q: "quotient_of x = (a, b)" by (cases "quotient_of x")
  then have b: "0 < b" and x: "x = of_int a / of_int b"
    by (rule quotient_of_denom_pos, rule quotient_of_div)
  from assms b x have a: "0 < a" by (simp add: zero_less_divide_iff)
  define k where "k = bitlen a - bitlen b"
  have il: "ilog2 x = (if 2 powi k \<le> x then k else k - 1)"
    by (simp add: ilog2_def q k_def Let_def)
  have bpos: "(0::rat) < of_int b" using b by simp
  have "x < 2 powi bitlen a / 2 powi (bitlen b - 1)"
  proof -
    have "x < 2 powi bitlen a / of_int b"
      unfolding x using bitlen_powi(2) [OF a] bpos by (simp add: divide_strict_right_mono)
    also have "\<dots> \<le> 2 powi bitlen a / 2 powi (bitlen b - 1)"
      using bitlen_powi(1) [OF b] bpos by (intro divide_left_mono mult_pos_pos) simp_all
    finally show ?thesis .
  qed
  also have "\<dots> = 2 powi (k + 1)"
    by (simp add: k_def power_int_diff [symmetric] algebra_simps)
  finally have up: "x < 2 powi (k + 1)" .
  have "2 powi (k - 1) = (2::rat) powi (bitlen a - 1) / 2 powi bitlen b"
    by (simp add: k_def power_int_diff [symmetric] algebra_simps)
  also have "\<dots> \<le> of_int a / 2 powi bitlen b"
    using bitlen_powi(1) [OF a] by (intro divide_right_mono) simp_all
  also have "\<dots> \<le> x"
    unfolding x using bitlen_powi(2) [OF b] a bpos by (intro divide_left_mono) simp_all
  finally have lo: "2 powi (k - 1) \<le> x" .
  show "2 powi ilog2 x \<le> x" using lo by (simp add: il)
  show "x < 2 powi (ilog2 x + 1)" using up by (auto simp add: il not_le)
qed

lemma ilog2_unique:
  assumes "2 powi k \<le> x" and "x < 2 powi (k + 1)"
  shows "ilog2 x = k"
proof -
  have "(0::rat) < 2 powi k" by simp
  with assms(1) have pos: "0 < x" by linarith
  note b = ilog2_bounds [OF pos]
  have "\<not> ilog2 x + 1 \<le> k"
  proof
    assume "ilog2 x + 1 \<le> k"
    then have "(2::rat) powi (ilog2 x + 1) \<le> 2 powi k" by (intro power_int_increasing) simp_all
    with b(2) assms(1) show False by linarith
  qed
  moreover have "\<not> k + 1 \<le> ilog2 x"
  proof
    assume "k + 1 \<le> ilog2 x"
    then have "(2::rat) powi (k + 1) \<le> 2 powi ilog2 x" by (intro power_int_increasing) simp_all
    with b(1) assms(2) show False by linarith
  qed
  ultimately show ?thesis by linarith
qed

lemma ilog2_less:
  assumes "0 < x" and "x < 2 powi k"
  shows "ilog2 x < k"
proof (rule ccontr)
  assume "\<not> ilog2 x < k"
  then have "(2::rat) powi k \<le> 2 powi ilog2 x" by (intro power_int_increasing) simp_all
  with ilog2_bounds(1) [OF assms(1)] assms(2) show False by linarith
qed


subsection \<open>The nearest double\<close>

lemma ulp_exponent_eq:
  assumes "2 powi k \<le> \<bar>x\<bar>" and "\<bar>x\<bar> < 2 powi (k + 1)"
  shows "ulp_exponent x = max (k - 52) (- 1074)"
  using ilog2_unique [OF assms] by (simp add: ulp_exponent_def)

lemma nearest_double_eval:
  assumes "2 powi k \<le> \<bar>x\<bar>" and "\<bar>x\<bar> < 2 powi (k + 1)" and "e = max (k - 52) (- 1074)"
  shows "nearest_double x = of_int (round_half_even (x / 2 powi e)) * 2 powi e"
proof -
  have "(0::rat) < 2 powi k" by simp
  with assms(1) have "0 < \<bar>x\<bar>" by linarith
  then have "x \<noteq> 0" by simp
  then show ?thesis by (simp add: nearest_double_def ulp_exponent_eq [OF assms(1,2)] assms(3))
qed

lemma nearest_double_scaled:
  assumes "x \<noteq> 0" and "\<bar>x\<bar> < 2 ^ 53"
  obtains S :: int where "0 < S"
    and "nearest_double x = of_int (round_half_even (x * of_int S)) / of_int S"
    and "S = 2 ^ 1074 \<or> 2 ^ 52 \<le> of_int S * \<bar>x\<bar>"
proof -
  have pos: "0 < \<bar>x\<bar>" using assms(1) by simp
  have "\<bar>x\<bar> < 2 powi 53" using assms(2) by simp
  then have l: "ilog2 \<bar>x\<bar> < 53" by (rule ilog2_less [OF pos])
  define e where "e = ulp_exponent x"
  have e: "e \<le> 0" using l by (simp add: e_def ulp_exponent_def)
  define S :: int where "S = 2 ^ nat (- e)"
  have S: "0 < S" by (simp add: S_def)
  have p: "(2::rat) powi e = 1 / of_int S"
    using e by (simp add: S_def power_int_def power_one_over inverse_eq_divide)
  have nd: "nearest_double x = of_int (round_half_even (x * of_int S)) / of_int S"
    using assms(1) by (simp add: nearest_double_def e_def [symmetric] p)
  have "S = 2 ^ 1074 \<or> 2 ^ 52 \<le> of_int S * \<bar>x\<bar>"
  proof (cases "e = - 1074")
    case True
    then show ?thesis by (simp add: S_def)
  next
    case False
    then have e': "e = ilog2 \<bar>x\<bar> - 52" by (simp add: e_def ulp_exponent_def max_def split: if_splits)
    have "(2::rat) powi (e + 52) \<le> \<bar>x\<bar>" using ilog2_bounds(1) [OF pos] by (simp add: e')
    moreover have "(2::rat) powi (e + 52) = 2 powi e * 2 ^ 52" by (simp add: power_int_add)
    ultimately have "2 ^ 52 / of_int S \<le> \<bar>x\<bar>" by (simp add: p)
    then have "2 ^ 52 \<le> of_int S * \<bar>x\<bar>" using S by (simp add: field_simps)
    then show ?thesis ..
  qed
  with S nd show thesis by (rule that)
qed

lemma nearest_double_le_int:
  assumes "\<bar>x\<bar> < 2 ^ 53" and "x \<le> of_int j"
  shows "nearest_double x \<le> of_int j"
proof (cases "x = 0")
  case True
  with assms show ?thesis by (simp add: nearest_double_def)
next
  case False
  from False assms(1) obtain S :: int where S: "0 < S"
    and nd: "nearest_double x = of_int (round_half_even (x * of_int S)) / of_int S"
    by (rule nearest_double_scaled)
  have Sr: "(0::rat) < of_int S" using S by simp
  have "x * of_int S \<le> of_int j * of_int S" using assms(2) Sr by (simp add: mult_right_mono)
  then have "x * of_int S \<le> of_int (j * S)" by simp
  then have "round_half_even (x * of_int S) \<le> j * S" by (rule round_half_even_le)
  then have le: "(of_int (round_half_even (x * of_int S)) :: rat) \<le> of_int (j * S)"
    by (simp only: of_int_le_iff)
  have "(of_int (round_half_even (x * of_int S)) :: rat) / of_int S \<le> of_int (j * S) / of_int S"
    by (rule divide_right_mono [OF le]) (rule less_imp_le [OF Sr])
  also have "\<dots> = of_int j" using Sr by simp
  finally show ?thesis unfolding nd .
qed

lemma nearest_double_ge_int:
  assumes "\<bar>x\<bar> < 2 ^ 53" and "of_int j \<le> x"
  shows "of_int j \<le> nearest_double x"
proof (cases "x = 0")
  case True
  with assms show ?thesis by (simp add: nearest_double_def)
next
  case False
  from False assms(1) obtain S :: int where S: "0 < S"
    and nd: "nearest_double x = of_int (round_half_even (x * of_int S)) / of_int S"
    by (rule nearest_double_scaled)
  have Sr: "(0::rat) < of_int S" using S by simp
  have "of_int j * of_int S \<le> x * of_int S" using assms(2) Sr by (simp add: mult_right_mono)
  then have "of_int (j * S) \<le> x * of_int S" by simp
  then have "j * S \<le> round_half_even (x * of_int S)" by (rule round_half_even_ge)
  then have le: "(of_int (j * S) :: rat) \<le> of_int (round_half_even (x * of_int S))"
    by (simp only: of_int_le_iff)
  have "of_int j = (of_int (j * S) :: rat) / of_int S" using Sr by simp
  also have "\<dots> \<le> of_int (round_half_even (x * of_int S)) / of_int S"
    by (rule divide_right_mono [OF le]) (rule less_imp_le [OF Sr])
  finally show ?thesis unfolding nd .
qed

lemma nearest_double_gt_int:
  fixes a b j :: int
  assumes a: "\<bar>a\<bar> < 2 ^ 53" and b: "1 \<le> b" "b < 2 ^ 1075"
    and j: "of_int j < (of_int a / of_int b :: rat)"
  shows "of_int j < nearest_double (of_int a / of_int b)"
proof (cases "a = 0")
  case True
  with j show ?thesis by (simp add: nearest_double_def)
next
  case False
  define x :: rat where "x = of_int a / of_int b"
  have br: "(0::rat) < of_int b" using b(1) by simp
  have x0: "x \<noteq> 0" using False br by (simp add: x_def)
  have ax: "\<bar>x\<bar> = of_int \<bar>a\<bar> / of_int b" using br by (simp add: x_def abs_divide)
  have "of_int \<bar>a\<bar> / of_int b \<le> (of_int \<bar>a\<bar> :: rat)"
    using b(1) by (simp add: divide_le_eq mult_le_cancel_left1)
  moreover have "(of_int \<bar>a\<bar> :: rat) < of_int (2 ^ 53)" using a by (simp only: of_int_less_iff)
  ultimately have small: "\<bar>x\<bar> < 2 ^ 53" by (simp add: ax)
  from x0 small obtain S :: int where S: "0 < S"
    and nd: "nearest_double x = of_int (round_half_even (x * of_int S)) / of_int S"
    and cases: "S = 2 ^ 1074 \<or> 2 ^ 52 \<le> of_int S * \<bar>x\<bar>"
    by (rule nearest_double_scaled)
  have Sr: "(0::rat) < of_int S" using S by simp
  have bS: "b < 2 * S"
  proof (rule disjE [OF cases])
    assume "S = 2 ^ 1074"
    with b(2) show ?thesis by simp
  next
    assume "2 ^ 52 \<le> of_int S * \<bar>x\<bar>"
    then have "2 ^ 52 * of_int b \<le> (of_int S * of_int \<bar>a\<bar> :: rat)"
      using br by (simp add: ax field_simps)
    then have "(of_int (2 ^ 52 * b) :: rat) \<le> of_int (S * \<bar>a\<bar>)" by simp
    then have "2 ^ 52 * b \<le> S * \<bar>a\<bar>" by (simp only: of_int_le_iff)
    also have "S * \<bar>a\<bar> < S * 2 ^ 53" using a S by (simp add: mult_strict_left_mono)
    finally show ?thesis by simp
  qed
  have "of_int j * of_int b < (of_int a :: rat)" using j br by (simp add: pos_less_divide_eq)
  then have "(of_int (j * b) :: rat) < of_int a" by simp
  then have "j * b < a" by (simp only: of_int_less_iff)
  then have "j * b + 1 \<le> a" by simp
  then have "(of_int (j * b + 1) :: rat) \<le> of_int a" by (simp only: of_int_le_iff)
  then have "(of_int (j * b + 1) :: rat) / of_int b \<le> x"
    unfolding x_def using br by (simp add: divide_right_mono)
  then have "of_int j + 1 / of_int b \<le> x" using br by (simp add: field_simps)
  then have "(of_int j + 1 / of_int b) * of_int S \<le> x * of_int S"
    by (rule mult_right_mono) (rule less_imp_le [OF Sr])
  moreover have "(of_int j + 1 / of_int b) * of_int S = (of_int (j * S) :: rat) + of_int S / of_int b"
    by (simp add: distrib_right)
  moreover have "(1 :: rat) / 2 < of_int S / of_int b"
  proof -
    have "(of_int b :: rat) < of_int (2 * S)" using bS by (simp only: of_int_less_iff)
    then have "(of_int b :: rat) < 2 * of_int S" by simp
    then show ?thesis using br by (simp add: pos_less_divide_eq)
  qed
  ultimately have "of_int (j * S) + 1 / 2 < x * of_int S" by linarith
  then have "j * S < round_half_even (x * of_int S)" by (rule round_half_even_gt)
  then have lt: "(of_int (j * S) :: rat) < of_int (round_half_even (x * of_int S))"
    by (simp only: of_int_less_iff)
  have "of_int j = (of_int (j * S) :: rat) / of_int S" using Sr by simp
  also have "\<dots> < of_int (round_half_even (x * of_int S)) / of_int S"
    by (rule divide_strict_right_mono [OF lt Sr])
  finally have "of_int j < nearest_double x" unfolding nd .
  then show ?thesis unfolding x_def .
qed

lemma ceiling_nearest_double_quotient:
  fixes a b :: int
  assumes a: "\<bar>a\<bar> < 2 ^ 53" and b: "1 \<le> b" "b < 2 ^ 1075"
  shows "\<lceil>nearest_double (of_int a / of_int b)\<rceil> = \<lceil>(of_int a / of_int b :: rat)\<rceil>"
    and "\<bar>nearest_double (of_int a / of_int b)\<bar> \<le> 2 ^ 53"
proof -
  define x :: rat where "x = of_int a / of_int b"
  have br: "(0::rat) < of_int b" using b(1) by simp
  have ax: "\<bar>x\<bar> = of_int \<bar>a\<bar> / of_int b" using br by (simp add: x_def abs_divide)
  have "of_int \<bar>a\<bar> / of_int b \<le> (of_int \<bar>a\<bar> :: rat)"
    using b(1) by (simp add: divide_le_eq mult_le_cancel_left1)
  moreover have "(of_int \<bar>a\<bar> :: rat) < of_int (2 ^ 53)" using a by (simp only: of_int_less_iff)
  ultimately have small: "\<bar>x\<bar> < 2 ^ 53" by (simp add: ax)
  have "of_int \<lceil>x\<rceil> - 1 < x" using ceiling_correct [of x] by simp
  then have "of_int (\<lceil>x\<rceil> - 1) < x" by simp
  then have lo: "of_int (\<lceil>x\<rceil> - 1) < nearest_double x"
    unfolding x_def by (rule nearest_double_gt_int [OF a b])
  have "x \<le> of_int \<lceil>x\<rceil>" by simp
  with small have hi: "nearest_double x \<le> of_int \<lceil>x\<rceil>" by (rule nearest_double_le_int)
  from lo hi have "\<lceil>nearest_double x\<rceil> = \<lceil>x\<rceil>" by (intro ceiling_unique) simp_all
  then show "\<lceil>nearest_double (of_int a / of_int b)\<rceil> = \<lceil>(of_int a / of_int b :: rat)\<rceil>"
    by (simp add: x_def)
  have "x \<le> of_int (2 ^ 53)" using small by simp
  with small have "nearest_double x \<le> of_int (2 ^ 53)" by (rule nearest_double_le_int)
  moreover have "of_int (- (2 ^ 53)) \<le> x" using small by simp
  with small have "of_int (- (2 ^ 53)) \<le> nearest_double x" by (rule nearest_double_ge_int)
  ultimately show "\<bar>nearest_double (of_int a / of_int b)\<bar> \<le> 2 ^ 53" by (simp add: x_def abs_le_iff)
qed

subsection \<open>Evaluation of the rounding\<close>

lemma round_half_even_quotient:
  assumes "0 < b"
  shows "round_half_even (of_int a / of_int b) =
    (if 2 * (a mod b) < b then a div b else if b < 2 * (a mod b) then a div b + 1
     else if even (a div b) then a div b else a div b + 1)"
proof -
  have br: "(0::rat) < of_int b" using assms by simp
  have f: "\<lfloor>(of_int a / of_int b :: rat)\<rfloor> = a div b" by (rule floor_divide_of_int_eq)
  have "(of_int a :: rat) = of_int (a div b * b + a mod b)" by simp
  also have "\<dots> = of_int (a div b) * of_int b + of_int (a mod b)" by (simp only: of_int_add of_int_mult)
  finally have r: "(of_int a / of_int b :: rat) - of_int (a div b) = of_int (a mod b) / of_int b"
    using br by (simp add: field_simps)
  have lt: "(of_int (a mod b) / of_int b < (1::rat) / 2) = (2 * (a mod b) < b)"
  proof -
    have "(of_int (a mod b) / of_int b < (1::rat) / 2) = ((of_int (2 * (a mod b)) :: rat) < of_int b)"
      using br by (simp add: field_simps)
    also have "\<dots> = (2 * (a mod b) < b)" by (simp only: of_int_less_iff)
    finally show ?thesis .
  qed
  have gt: "((1::rat) / 2 < of_int (a mod b) / of_int b) = (b < 2 * (a mod b))"
  proof -
    have "((1::rat) / 2 < of_int (a mod b) / of_int b) = ((of_int b :: rat) < of_int (2 * (a mod b)))"
      using br by (simp add: field_simps)
    also have "\<dots> = (b < 2 * (a mod b))" by (simp only: of_int_less_iff)
    finally show ?thesis .
  qed
  show ?thesis unfolding round_half_even_def Let_def f r lt gt ..
qed

lemma round_half_even_numeral [simp]:
  "round_half_even (numeral a / numeral b) =
    (if 2 * (numeral a mod numeral b) < (numeral b :: int) then numeral a div numeral b
     else if (numeral b :: int) < 2 * (numeral a mod numeral b) then numeral a div numeral b + 1
     else if even (numeral a div numeral b :: int) then numeral a div numeral b
     else numeral a div numeral b + 1)"
  using round_half_even_quotient [of "numeral b" "numeral a"] by simp

lemma round_half_even_numeral_int [simp]: "round_half_even (numeral n) = numeral n"
  using round_half_even_of_int [of "numeral n"] by simp

lemma round_half_even_0 [simp]: "round_half_even 0 = 0"
  using round_half_even_of_int [of 0] by simp

subsection \<open>Symmetry, sign and monotonicity\<close>







lemma nearest_double_powi:
  assumes "- 1074 \<le> k"
  shows "nearest_double (2 powi k) = 2 powi k"
proof -
  define e where "e = max (k - 52) (- 1074)"
  have d: "0 \<le> k - e" using assms by (simp add: e_def)
  have "(2::rat) powi k \<le> \<bar>2 powi k\<bar>" by simp
  moreover have "\<bar>(2::rat) powi k\<bar> < 2 powi (k + 1)" by (simp add: power_int_add)
  ultimately have "nearest_double (2 powi k) = of_int (round_half_even (2 powi k / 2 powi e)) * 2 powi e"
    using e_def by (rule nearest_double_eval)
  moreover have q: "(2::rat) powi (k - e) = of_int (2 ^ nat (k - e))"
    using d by (simp add: power_int_def)
  moreover have "(2::rat) powi k / 2 powi e = 2 powi (k - e)"
    by (rule power_int_diff [symmetric]) simp
  moreover have "(2::rat) powi (k - e) * 2 powi e = 2 powi k"
    using power_int_add [of "2::rat" "k - e" e] by simp
  ultimately show ?thesis by (simp only: round_half_even_of_int)
qed


section \<open>The amount of the payload\<close>














section \<open>Properties of the coordinator\<close>

text \<open>
  With fewer than \<open>2 ^ 53\<close> records the rounding of the quotient does not change its
  ceiling, and the division does not overflow.
\<close>

lemma per_thread_exact:
  assumes "1 \<le> THREADS cfg" and "THREADS cfg < 2 ^ 1075" and "\<bar>TOTAL_RECORDS cfg\<bar> < 2 ^ 53"
  shows "per_thread cfg = Inr \<lceil>(of_int (TOTAL_RECORDS cfg) :: rat) / of_int (THREADS cfg)\<rceil>"
proof -
  let ?q = "nearest_double (of_int (TOTAL_RECORDS cfg) / of_int (THREADS cfg))"
  note c = ceiling_nearest_double_quotient [OF assms(3) assms(1) assms(2)]
  have "\<bar>?q\<bar> < 2 ^ 1024" using c(2) by (rule le_less_trans) simp
  then have "int_truediv (TOTAL_RECORDS cfg) (THREADS cfg) = Inr (Finite ?q)"
    using assms(1) by (simp add: int_truediv_def Let_def)
  then show ?thesis by (simp add: per_thread_def c(1))
qed

lemma per_thread_div:
  assumes "1 \<le> THREADS cfg" and "THREADS cfg < 2 ^ 1075" and "\<bar>TOTAL_RECORDS cfg\<bar> < 2 ^ 53"
  shows "per_thread cfg = Inr (- (- TOTAL_RECORDS cfg div THREADS cfg))"
  using per_thread_exact [OF assms] by (simp add: ceiling_divide_eq_div)

lemma submit_all_map:
  "submit_all cfg p now js acc = acc @ map (the_task cfg p now) js"
  by (induction js arbitrary: acc) (simp_all add: the_task_def)

lemma length_py_range [simp]: "length (py_range n) = nat n"
  by (simp add: py_range_def)

lemma nth_py_range [simp]: "i < nat n \<Longrightarrow> py_range n ! i = int i"
  by (simp add: py_range_def)

lemma main_tasks_map:
  assumes "1 \<le> THREADS cfg" and "per_thread cfg = Inr p"
  shows "main_tasks cfg now = Inr (map (the_task cfg p now) (py_range (THREADS cfg)))"
  using assms by (simp add: main_tasks_def submit_all_map)

text \<open>
  Claim C2, as the code has it. For \<open>THREADS \<ge> 1\<close> and a total of magnitude below
  \<open>2 ^ 53\<close> (so that the float quotient has the ceiling of the exact one; the bound
  \<open>2 ^ 1075\<close> on \<open>THREADS\<close> keeps the quotient from rounding to zero) the coordinator
  computes \<open>per_thread\<close>, the ceiling of \<open>TOTAL_RECORDS / THREADS\<close>, and submits one worker
  for every \<open>i\<close> in \<open>[0, THREADS)\<close>, with start index \<open>i * per_thread\<close> and end index
  \<open>min((i + 1) * per_thread, TOTAL_RECORDS)\<close>. The worker id passed is \<open>i + 1\<close>, so the ids
  are exactly \<open>1, ..., THREADS\<close>.
\<close>

theorem main_tasks_ranges:
  assumes "1 \<le> THREADS cfg" and "THREADS cfg < 2 ^ 1075" and "\<bar>TOTAL_RECORDS cfg\<bar> < 2 ^ 53"
  shows "\<exists>p tasks. p = \<lceil>(of_int (TOTAL_RECORDS cfg) :: rat) / of_int (THREADS cfg)\<rceil> \<and>
           per_thread cfg = Inr p \<and> main_tasks cfg now = Inr tasks \<and>
           length tasks = nat (THREADS cfg) \<and>
           (\<forall>i < nat (THREADS cfg).
               tasks ! i = \<lparr>worker_id = int i + 1,
                            start_index = int i * p,
                            end_index = min ((int i + 1) * p) (TOTAL_RECORDS cfg),
                            total_all_threads = TOTAL_RECORDS cfg, t0 = now\<rparr>) \<and>
           map worker_id tasks = [1 .. THREADS cfg]"
proof -
  define p where "p = \<lceil>(of_int (TOTAL_RECORDS cfg) :: rat) / of_int (THREADS cfg)\<rceil>"
  have p: "per_thread cfg = Inr p" unfolding p_def using assms by (rule per_thread_exact)
  let ?tasks = "map (the_task cfg p now) (py_range (THREADS cfg))"
  have ids: "map worker_id ?tasks = [1 .. THREADS cfg]"
  proof (rule nth_equalityI)
    show "length (map worker_id ?tasks) = length [1 .. THREADS cfg]" using assms(1) by simp
  next
    fix i assume "i < length (map worker_id ?tasks)"
    then show "map worker_id ?tasks ! i = [1 .. THREADS cfg] ! i"
      by (simp add: the_task_def)
  qed
  have nth: "\<forall>i < nat (THREADS cfg). ?tasks ! i = the_task cfg p now (int i)"
    by simp
  have "main_tasks cfg now = Inr ?tasks" using assms(1) p by (rule main_tasks_map)
  with p ids nth have "p = \<lceil>(of_int (TOTAL_RECORDS cfg) :: rat) / of_int (THREADS cfg)\<rceil> \<and>
           per_thread cfg = Inr p \<and> main_tasks cfg now = Inr ?tasks \<and>
           length ?tasks = nat (THREADS cfg) \<and>
           (\<forall>i < nat (THREADS cfg).
               ?tasks ! i = \<lparr>worker_id = int i + 1,
                            start_index = int i * p,
                            end_index = min ((int i + 1) * p) (TOTAL_RECORDS cfg),
                            total_all_threads = TOTAL_RECORDS cfg, t0 = now\<rparr>) \<and>
           map worker_id ?tasks = [1 .. THREADS cfg]"
    by (simp add: the_task_def p_def)
  then show ?thesis by blast
qed

theorem main_tasks_ranges_witness:
  "1 \<le> THREADS \<lparr>TOTAL_RECORDS = 17, BATCH_SIZE = 50000, THREADS = 4, start_ts = 0\<rparr> \<and>
   THREADS \<lparr>TOTAL_RECORDS = 17, BATCH_SIZE = 50000, THREADS = 4, start_ts = 0\<rparr> < 2 ^ 1075 \<and>
   \<bar>TOTAL_RECORDS \<lparr>TOTAL_RECORDS = 17, BATCH_SIZE = 50000, THREADS = 4, start_ts = 0\<rparr>\<bar> < 2 ^ 53 \<and>
   (\<exists>tasks. per_thread \<lparr>TOTAL_RECORDS = 17, BATCH_SIZE = 50000, THREADS = 4, start_ts = 0\<rparr> = Inr 5 \<and>
      main_tasks \<lparr>TOTAL_RECORDS = 17, BATCH_SIZE = 50000, THREADS = 4, start_ts = 0\<rparr> 0 = Inr tasks \<and>
      length tasks = 4 \<and> map worker_id tasks = [1, 2, 3, 4])"
proof -
  have c: "\<lceil>(17::rat) / 4\<rceil> = 5" by (rule ceiling_unique) simp_all
  show ?thesis
    using main_tasks_ranges [of "\<lparr>TOTAL_RECORDS = 17, BATCH_SIZE = 50000, THREADS = 4, start_ts = 0\<rparr>" 0]
    by (auto simp: upto.simps c)
qed

text \<open>
  Claim C2 as stated gives the worker of index \<open>i\<close> the id \<open>i\<close>, so that the ids would be
  \<open>0, ..., THREADS - 1\<close>. For 17 records and 4 threads the ids submitted are 1, 2, 3, 4.
\<close>

theorem worker_ids_counterexample:
  "main_tasks \<lparr>TOTAL_RECORDS = 17, BATCH_SIZE = 50000, THREADS = 4, start_ts = 0\<rparr> 0 =
     Inr [\<lparr>worker_id = 1, start_index = 0, end_index = 5, total_all_threads = 17, t0 = 0\<rparr>,
          \<lparr>worker_id = 2, start_index = 5, end_index = 10, total_all_threads = 17, t0 = 0\<rparr>,
          \<lparr>worker_id = 3, start_index = 10, end_index = 15, total_all_threads = 17, t0 = 0\<rparr>,
          \<lparr>worker_id = 4, start_index = 15, end_index = 17, total_all_threads = 17, t0 = 0\<rparr>] \<and>
   map worker_id (projr (main_tasks \<lparr>TOTAL_RECORDS = 17, BATCH_SIZE = 50000, THREADS = 4, start_ts = 0\<rparr> 0))
     \<noteq> [0, 1, 2, 3]"
  by (simp add: main_tasks_def per_thread_div py_range_def upt_rec)

text \<open>
  Claim C1 says that the ranges partition \<open>[0, TOTAL_RECORDS)\<close> and that their sizes
  \<open>end_index - start_index\<close> sum to \<open>TOTAL_RECORDS\<close>. For 5 records and 4 threads
  \<open>per_thread\<close> is 2 and the fourth range starts at 6 and ends at 5: it does not continue
  the third, which ends at 5, its size is \<open>-1\<close>, and the sizes sum to 4.
\<close>

theorem ranges_5_records_4_threads:
  "main_tasks \<lparr>TOTAL_RECORDS = 5, BATCH_SIZE = 50000, THREADS = 4, start_ts = 0\<rparr> 0 =
     Inr [\<lparr>worker_id = 1, start_index = 0, end_index = 2, total_all_threads = 5, t0 = 0\<rparr>,
          \<lparr>worker_id = 2, start_index = 2, end_index = 4, total_all_threads = 5, t0 = 0\<rparr>,
          \<lparr>worker_id = 3, start_index = 4, end_index = 5, total_all_threads = 5, t0 = 0\<rparr>,
          \<lparr>worker_id = 4, start_index = 6, end_index = 5, total_all_threads = 5, t0 = 0\<rparr>] \<and>
   sum_list (map range_size
     (projr (main_tasks \<lparr>TOTAL_RECORDS = 5, BATCH_SIZE = 50000, THREADS = 4, start_ts = 0\<rparr> 0))) = 4"
  by (simp add: main_tasks_def per_thread_div py_range_def range_size_def upt_rec)

end
